theory Spec2Isabelle
  imports Main
begin

unbundle bit_operations_syntax

section \<open>Data model\<close>

text \<open>
  A shallow embedding of \<^verbatim>\<open>src/gbvm-benchmark.js\<close>. JavaScript numbers that hold
  addresses, banks and cycle counts are integers and are modelled as \<^typ>\<open>int\<close>; array
  indices are \<^typ>\<open>nat\<close>. Objects are records. The objects of the symbol table, the
  regions and the stack frames all carry the fields \<^verbatim>\<open>symbol\<close> and \<^verbatim>\<open>addr\<close>, which is
  expressed by record extension. The field \<^verbatim>\<open>end\<close> of a region is called \<open>endAddr\<close>.
\<close>

record symbolAt =
  symbol :: string
  addr :: int

record noiSymbol = symbolAt +
  bank :: int

record region = noiSymbol +
  endAddr :: int

text \<open>
  One line of the \<^verbatim>\<open>.noi\<close> file that passed the line filters of \<^verbatim>\<open>parseNoi\<close>, split at
  white space: its second token and the value of \<^verbatim>\<open>parseInt(addrStr, 16)\<close>, where \<open>None\<close>
  stands for a value that is not a finite number. The line filters themselves (regular
  expressions over the raw text) are not modelled.
\<close>

record noiLine =
  lineSymbol :: string
  lineAddr :: "int option"

section \<open>parseNoi\<close>

text \<open>
  \<^verbatim>\<open>symbol.replace(/^F([^$]+)\$/, "").replace(/\$.*/, "")\<close>: the first replacement
  removes a leading \<^verbatim>\<open>F\<close>, a non-empty run of characters other than \<^verbatim>\<open>$\<close> and the
  \<^verbatim>\<open>$\<close> that follows it; the second removes everything from the first \<^verbatim>\<open>$\<close> on.
\<close>

definition stripFPrefix :: "string \<Rightarrow> string" where
  "stripFPrefix s =
     (case s of
        [] \<Rightarrow> s
      | c # rest \<Rightarrow>
          if c = CHR ''F''
             \<and> takeWhile (\<lambda>x. x \<noteq> CHR ''$'') rest \<noteq> []
             \<and> dropWhile (\<lambda>x. x \<noteq> CHR ''$'') rest \<noteq> []
          then tl (dropWhile (\<lambda>x. x \<noteq> CHR ''$'') rest)
          else s)"

definition stripDollarSuffix :: "string \<Rightarrow> string" where
  "stripDollarSuffix s = takeWhile (\<lambda>x. x \<noteq> CHR ''$'') s"

definition symbolClean :: "string \<Rightarrow> string" where
  "symbolClean s = stripDollarSuffix (stripFPrefix s)"

text \<open>
  The bitwise operators of JavaScript work on the 32-bit two's complement of the number;
  the bits 0 to 23 read here are those of the integer itself. A value that is not a
  finite number converts to 0.
\<close>

definition lineToSymbol :: "noiLine \<Rightarrow> noiSymbol" where
  "lineToSymbol l =
     (let fullAddr = (case lineAddr l of None \<Rightarrow> 0 | Some n \<Rightarrow> n);
          a = fullAddr AND 0xffff;
          b = (if a < 0x4000 then 0 else drop_bit 16 fullAddr AND 0xff)
      in \<lparr>symbol = symbolClean (lineSymbol l), addr = a, bank = b\<rparr>)"

text \<open>
  The key \<^verbatim>\<open>`b${bank}_${addr}`\<close> determines the pair of bank and address and is
  modelled as that pair; the object \<^verbatim>\<open>usedAddr\<close> is the set of keys stored in it.
\<close>

definition addrKey :: "noiSymbol \<Rightarrow> int \<times> int" where
  "addrKey s = (bank s, addr s)"

fun parseNoiLoop :: "noiSymbol list \<Rightarrow> (int \<times> int) set \<Rightarrow> noiLine list \<Rightarrow> noiSymbol list" where
  "parseNoiLoop result usedAddr [] = result"
| "parseNoiLoop result usedAddr (l # ls) =
     (let s = lineToSymbol l; key = addrKey s
      in if key \<notin> usedAddr
         then parseNoiLoop (result @ [s]) (insert key usedAddr) ls
         else parseNoiLoop result usedAddr ls)"

definition parseNoi :: "noiLine list \<Rightarrow> noiSymbol list" where
  "parseNoi ls = parseNoiLoop [] {} ls"

section \<open>generateFunctionRegions\<close>

text \<open>
  \<^verbatim>\<open>bankGroups\<close> is a \<^verbatim>\<open>Map\<close>: an association list in the order in which the banks were
  first seen, each bank with its symbols in the order of the symbol table.
\<close>

fun pushGroup :: "noiSymbol \<Rightarrow> (int \<times> noiSymbol list) list \<Rightarrow> (int \<times> noiSymbol list) list" where
  "pushGroup fn [] = [(bank fn, [fn])]"
| "pushGroup fn ((b, symbols) # groups) =
     (if b = bank fn then (b, symbols @ [fn]) # groups
      else (b, symbols) # pushGroup fn groups)"

fun groupByBank :: "(int \<times> noiSymbol list) list \<Rightarrow> noiSymbol list \<Rightarrow> (int \<times> noiSymbol list) list" where
  "groupByBank bankGroups [] = bankGroups"
| "groupByBank bankGroups (fn # rest) = groupByBank (pushGroup fn bankGroups) rest"

definition withEnd :: "noiSymbol \<Rightarrow> int \<Rightarrow> region" where
  "withEnd s e = \<lparr>symbol = symbol s, addr = addr s, bank = bank s, endAddr = e\<rparr>"

text \<open>
  The two assignments of \<^verbatim>\<open>end\<close>: every symbol but the last of the sorted list gets
  \<^verbatim>\<open>Math.min(addrMax, sorted[i + 1].addr - 1)\<close>, the last one \<^verbatim>\<open>addrMax\<close>. A group is
  never empty.
\<close>

fun assignEnds :: "int \<Rightarrow> noiSymbol list \<Rightarrow> region list" where
  "assignEnds addrMax [] = []"
| "assignEnds addrMax [s] = [withEnd s addrMax]"
| "assignEnds addrMax (s # n # rest) =
     withEnd s (min addrMax (addr n - 1)) # assignEnds addrMax (n # rest)"

definition bankAddrMax :: "int \<Rightarrow> int" where
  "bankAddrMax b = (if b = 0 then 0x3fff else 0x7fff)"

text \<open>
  \<^verbatim>\<open>symbols.sort((a, b) => a.addr - b.addr)\<close> is a stable sort by address, as is
  \<^const>\<open>sort_key\<close>.
\<close>

definition regionsOfGroup :: "int \<times> noiSymbol list \<Rightarrow> region list" where
  "regionsOfGroup g = assignEnds (bankAddrMax (fst g)) (sort_key addr (snd g))"

definition generateFunctionRegions :: "noiSymbol list \<Rightarrow> region list" where
  "generateFunctionRegions noiLookup = concat (map regionsOfGroup (groupByBank [] noiLookup))"

section \<open>Symbol data loaded at start-up\<close>

text \<open>
  The objects \<^verbatim>\<open>regionsByBank\<close> and \<^verbatim>\<open>noiIndex\<close> are maps, filled by the two loops that
  follow the call of \<^verbatim>\<open>generateFunctionRegions\<close>. When the \<^verbatim>\<open>.noi\<close> file cannot be read,
  the symbol table stays empty, which is \<open>loadNoi []\<close>. A later symbol of the same name
  overwrites the index of an earlier one. \<^verbatim>\<open>noiIndex\<close> is a plain object: the assignment
  \<^verbatim>\<open>noiIndex["__proto__"] = i\<close> stores nothing, and reading that name yields the prototype
  object, which is no index. The map therefore has no entry for the name \<^verbatim>\<open>__proto__\<close>.
\<close>

definition regionsByBankOf :: "region list \<Rightarrow> (int \<rightharpoonup> region list)" where
  "regionsByBankOf regions =
     foldl (\<lambda>m r. m(bank r \<mapsto> (case m (bank r) of None \<Rightarrow> [] | Some rs \<Rightarrow> rs) @ [r]))
       Map.empty regions"

definition noiIndexOf :: "noiSymbol list \<Rightarrow> (string \<rightharpoonup> nat)" where
  "noiIndexOf nl =
     foldl (\<lambda>m i. if symbol (nl ! i) = ''__proto__'' then m else m(symbol (nl ! i) \<mapsto> i))
       Map.empty [0..<length nl]"

record symbolData =
  noiLookup :: "noiSymbol list"
  functionRegions :: "region list"
  regionsByBank :: "int \<rightharpoonup> region list"
  noiIndex :: "string \<rightharpoonup> nat"

definition loadNoi :: "noiSymbol list \<Rightarrow> symbolData" where
  "loadNoi nl =
     \<lparr>noiLookup = nl,
      functionRegions = generateFunctionRegions nl,
      regionsByBank = regionsByBankOf (generateFunctionRegions nl),
      noiIndex = noiIndexOf nl\<rparr>"

text \<open>\<^verbatim>\<open>speedscope.shared.frames\<close>: the names of the symbol table, in its order.\<close>

definition sharedFrames :: "symbolData \<Rightarrow> string list" where
  "sharedFrames sd = map symbol (noiLookup sd)"

section \<open>getCurrentFunctionRegion\<close>

text \<open>
  The second half of \<^verbatim>\<open>getCurrentFunctionRegion\<close>, the search of the list of the target
  bank, is a function of its own here: it is the lookup without the cache.
\<close>

definition searchRegion :: "(int \<rightharpoonup> region list) \<Rightarrow> int \<Rightarrow> int \<Rightarrow> region option" where
  "searchRegion rbb pc bnk =
     (let targetBank = (if pc < 0x4000 then 0 else bnk)
      in case rbb targetBank of
           None \<Rightarrow> None
         | Some bankRegions \<Rightarrow> find (\<lambda>fn. addr fn \<le> pc \<and> pc \<le> endAddr fn) bankRegions)"

definition getCurrentFunctionRegion ::
  "(int \<rightharpoonup> region list) \<Rightarrow> region option \<Rightarrow> int \<Rightarrow> int \<Rightarrow> region option" where
  "getCurrentFunctionRegion rbb currentFn pc bnk =
     (case currentFn of
        None \<Rightarrow> searchRegion rbb pc bnk
      | Some fn \<Rightarrow>
          if addr fn \<le> pc \<and> pc \<le> endAddr fn \<and> (pc < 0x4000 \<or> bank fn = bnk)
          then Some fn
          else searchRegion rbb pc bnk)"

section \<open>The call-stack tracker\<close>

record stackFrame = symbolAt +
  clock :: int
  childPushed :: bool
  openPrinted :: bool
  indent :: nat
  prefix :: string

text \<open>
  An event of \<^verbatim>\<open>speedscope.profiles[0].events\<close>: \<open>Open at frame\<close> is
  \<^verbatim>\<open>{type: "O", at, frame}\<close> and \<open>Close at frame start\<close> is
  \<^verbatim>\<open>{type: "C", at, frame, start}\<close>. The frame is \<^verbatim>\<open>noiIndex[symbol]\<close>: an index, or a
  value that is no index (\<open>None\<close>), which is the prototype object for the symbol
  \<^verbatim>\<open>__proto__\<close> and \<^verbatim>\<open>undefined\<close> for a symbol without an entry. A symbol table gives every
  region an entry, so a run of the tracker meets only the first of the two.
\<close>

datatype event =
  Open (at: int) "nat option"
| Close (at: int) "nat option" int

text \<open>
  The state of the tracker. The array \<^verbatim>\<open>fnStack\<close> is a list with its top at the end.
  The lines printed by \<^verbatim>\<open>log\<close> are not modelled.
\<close>

record trackerState =
  currentFnRegion :: "region option"
  fnStack :: "stackFrame list"
  events :: "event list"

definition initialState :: trackerState where
  "initialState = \<lparr>currentFnRegion = None, fnStack = [], events = []\<rparr>"

definition markParent :: "stackFrame list \<Rightarrow> stackFrame list" where
  "markParent stack =
     (if stack = [] then stack
      else butlast stack @ [(last stack)\<lparr>childPushed := True, openPrinted := True\<rparr>])"

definition pushFrame :: "(string \<rightharpoonup> nat) \<Rightarrow> int \<Rightarrow> region \<Rightarrow> trackerState \<Rightarrow> trackerState" where
  "pushFrame idx clockNow fn st =
     (let isInterrupt = (take 4 (symbol fn) = ''INT_'');
          pfx = (if isInterrupt then ''[INT]'' else ''-'');
          stack = markParent (fnStack st)
      in st\<lparr>fnStack := stack @
               [\<lparr>symbol = symbol fn, addr = addr fn, clock = clockNow, childPushed = False,
                 openPrinted = False, indent = length stack, prefix = pfx\<rparr>],
            events := events st @ [Open clockNow (idx (symbol fn))]\<rparr>)"

definition fnStackContains :: "stackFrame list \<Rightarrow> region \<Rightarrow> bool" where
  "fnStackContains stack searchFn = list_ex (\<lambda>fn. symbol fn = symbol searchFn) stack"

text \<open>
  The loop of \<^verbatim>\<open>popFrame\<close>. Its argument is \<^verbatim>\<open>fn?.symbol\<close>: \<open>None\<close> when \<^verbatim>\<open>popFrame\<close> is
  called without a region, as at the end of the run; no frame has that symbol.
\<close>

function popFrameLoop ::
  "(string \<rightharpoonup> nat) \<Rightarrow> int \<Rightarrow> string option \<Rightarrow> stackFrame list \<Rightarrow> event list
     \<Rightarrow> stackFrame list \<times> event list" where
  "popFrameLoop idx clockNow fnSymbol stack evs =
     (if stack \<noteq> [] \<and> Some (symbol (last stack)) \<noteq> fnSymbol
      then popFrameLoop idx clockNow fnSymbol (butlast stack)
             (evs @ [Close clockNow (idx (symbol (last stack))) (clock (last stack))])
      else (stack, evs))"
  by pat_completeness auto
termination
  by (relation "measure (\<lambda>(idx, clockNow, fnSymbol, stack, evs). length stack)") auto

declare popFrameLoop.simps [simp del]

definition popFrame :: "(string \<rightharpoonup> nat) \<Rightarrow> int \<Rightarrow> region option \<Rightarrow> trackerState \<Rightarrow> trackerState" where
  "popFrame idx clockNow fn st =
     (case popFrameLoop idx clockNow (map_option symbol fn) (fnStack st) (events st) of
        (stack, evs) \<Rightarrow> st\<lparr>fnStack := stack, events := evs\<rparr>)"

text \<open>
  The handler \<^verbatim>\<open>gb.cpu.onAfterInstruction\<close>, on the observation \<open>(pc, bank, time)\<close> read
  from the emulator. The test \<^verbatim>\<open>newFn === currentFnRegion\<close> compares object identity. The
  region held in \<^verbatim>\<open>currentFnRegion\<close> was returned by an earlier search, and a search returns
  the first region of a bank list that contains the address, so two region objects with
  equal fields are never both returned: on the states the program reaches, identity and
  equality of the fields agree. The last assignment of the handler follows the two
  returning branches and is kept as the last branch here.
\<close>

definition onAfterInstruction :: "symbolData \<Rightarrow> trackerState \<Rightarrow> int \<times> int \<times> int \<Rightarrow> trackerState" where
  "onAfterInstruction sd st obs =
     (case obs of (pc, bnk, clockNow) \<Rightarrow>
        if pc < 336 then st
        else
          (case getCurrentFunctionRegion (regionsByBank sd) (currentFnRegion st) pc bnk of
             None \<Rightarrow> st
           | Some newFn \<Rightarrow>
               if Some newFn = currentFnRegion st then st
               else if pc = addr newFn
               then (pushFrame (noiIndex sd) clockNow newFn st)\<lparr>currentFnRegion := Some newFn\<rparr>
               else if pc \<noteq> addr newFn
               then (if fnStackContains (fnStack st) newFn
                     then popFrame (noiIndex sd) clockNow (Some newFn) st
                     else pushFrame (noiIndex sd) clockNow newFn st)\<lparr>currentFnRegion := Some newFn\<rparr>
               else st\<lparr>currentFnRegion := None\<rparr>))"

text \<open>The run: one call of the handler per observation, then \<^verbatim>\<open>popFrame()\<close> in \<^verbatim>\<open>main\<close>.\<close>

definition runTracker :: "symbolData \<Rightarrow> (int \<times> int \<times> int) list \<Rightarrow> trackerState" where
  "runTracker sd obs = foldl (onAfterInstruction sd) initialState obs"

definition finishRun :: "symbolData \<Rightarrow> int \<Rightarrow> trackerState \<Rightarrow> trackerState" where
  "finishRun sd finalTime st = popFrame (noiIndex sd) finalTime None st"

section \<open>eventsBetween and logFrameReport\<close>

text \<open>The end of an interval is a number or \<^verbatim>\<open>Infinity\<close>.\<close>

datatype endTime = Finite int | Infinity

record activeEvent =
  start :: int
  endAt :: endTime
  frame :: "nat option"

text \<open>
  The object \<^verbatim>\<open>stack\<close> of \<^verbatim>\<open>eventsBetween\<close>, keyed by frame: an association list in the
  order in which the keys were created. A missing key reads as the empty list, which the
  source treats like an empty array.
\<close>

definition stackGet :: "(nat option \<times> int list) list \<Rightarrow> nat option \<Rightarrow> int list" where
  "stackGet stack fr = (case map_of stack fr of None \<Rightarrow> [] | Some ts \<Rightarrow> ts)"

fun stackSet :: "nat option \<Rightarrow> int list \<Rightarrow> (nat option \<times> int list) list \<Rightarrow> (nat option \<times> int list) list" where
  "stackSet fr ts [] = [(fr, ts)]"
| "stackSet fr ts ((k, v) # rest) =
     (if k = fr then (k, ts) # rest else (k, v) # stackSet fr ts rest)"

fun matchEvents ::
  "(nat option \<times> int list) list \<Rightarrow> activeEvent list \<Rightarrow> event list
     \<Rightarrow> (nat option \<times> int list) list \<times> activeEvent list" where
  "matchEvents stack activeEvents [] = (stack, activeEvents)"
| "matchEvents stack activeEvents (Open t fr # es) =
     matchEvents (stackSet fr (stackGet stack fr @ [t]) stack) activeEvents es"
| "matchEvents stack activeEvents (Close t fr s # es) =
     (if stackGet stack fr \<noteq> []
      then matchEvents (stackSet fr (butlast (stackGet stack fr)) stack)
             (activeEvents @ [\<lparr>start = last (stackGet stack fr), endAt = Finite t, frame = fr\<rparr>]) es
      else matchEvents stack activeEvents es)"

text \<open>
  \<^verbatim>\<open>Object.entries(stack)\<close> lists the keys that are array indices in ascending order and
  then the other keys (here the one of the frame that is no index) in the order of their
  creation.
\<close>

definition objectEntries :: "(nat option \<times> int list) list \<Rightarrow> (nat option \<times> int list) list" where
  "objectEntries stack =
     map (\<lambda>(i, ts). (Some i, ts)) (sort_key fst [(i, ts). (Some i, ts) \<leftarrow> stack])
     @ [(None, ts). (None, ts) \<leftarrow> stack]"

definition ongoing :: "(nat option \<times> int list) list \<Rightarrow> activeEvent list" where
  "ongoing stack =
     concat (map (\<lambda>(fr, times). map (\<lambda>startTime. \<lparr>start = startTime, endAt = Infinity, frame = fr\<rparr>) times)
       (objectEntries stack))"

definition allActiveEvents :: "event list \<Rightarrow> activeEvent list" where
  "allActiveEvents evs = (case matchEvents [] [] evs of (stack, activeEvents) \<Rightarrow> activeEvents @ ongoing stack)"

fun endsAfter :: "endTime \<Rightarrow> int \<Rightarrow> bool" where
  "endsAfter (Finite e) t = (e > t)"
| "endsAfter Infinity t = True"

definition eventsBetween :: "event list \<Rightarrow> int \<Rightarrow> int \<Rightarrow> activeEvent list" where
  "eventsBetween evs wStart wEnd =
     filter (\<lambda>ev. endsAfter (endAt ev) wStart \<and> start ev < wEnd) (allActiveEvents evs)"

fun minEnd :: "endTime \<Rightarrow> int \<Rightarrow> int" where
  "minEnd (Finite e) t = min e t"
| "minEnd Infinity t = t"

text \<open>
  \<^verbatim>\<open>speedscope.shared.frames[e.frame].name\<close> throws a \<^verbatim>\<open>TypeError\<close> when the frame is not an
  index of the table.
\<close>

datatype error = TypeError

definition frameName :: "string list \<Rightarrow> nat option \<Rightarrow> error + string" where
  "frameName frames fr =
     (case fr of
        None \<Rightarrow> Inl TypeError
      | Some i \<Rightarrow> if i < length frames then Inr (frames ! i) else Inl TypeError)"

text \<open>\<^verbatim>\<open>frameMap\<close> is a \<^verbatim>\<open>Map\<close> from the name to its entry, in the order of insertion.\<close>

fun addDuration :: "string \<Rightarrow> int \<Rightarrow> (string \<times> int) list \<Rightarrow> (string \<times> int) list" where
  "addDuration name d [] = [(name, 0 + d)]"
| "addDuration name d ((n, duration) # rest) =
     (if n = name then (n, duration + d) # rest else (n, duration) # addDuration name d rest)"

fun sumDurations ::
  "string list \<Rightarrow> int \<Rightarrow> int \<Rightarrow> (string \<times> int) list \<Rightarrow> activeEvent list
     \<Rightarrow> error + (string \<times> int) list" where
  "sumDurations frames wStart wEnd frameMap [] = Inr frameMap"
| "sumDurations frames wStart wEnd frameMap (e # es) =
     (case frameName frames (frame e) of
        Inl err \<Rightarrow> Inl err
      | Inr name \<Rightarrow>
          sumDurations frames wStart wEnd
            (addDuration name (minEnd (endAt e) wEnd - max (start e) wStart) frameMap) es)"

text \<open>
  The result of \<^verbatim>\<open>logFrameReport\<close> is \<^verbatim>\<open>frameStats\<close>, the entries sorted by descending
  duration with a stable sort; the lines it prints from them are not modelled.
\<close>

definition logFrameReport :: "string list \<Rightarrow> event list \<Rightarrow> int \<Rightarrow> int \<Rightarrow> error + (string \<times> int) list" where
  "logFrameReport frames evs wStart wEnd =
     (case sumDurations frames wStart wEnd [] (eventsBetween evs wStart wEnd) of
        Inl err \<Rightarrow> Inl err
      | Inr frameMap \<Rightarrow> Inr (sort_key (\<lambda>p. - snd p) frameMap))"

section \<open>Notions used in the statements\<close>

text \<open>The symbols of a bank in \<^verbatim>\<open>bankGroups\<close>; a bank without an entry has none.\<close>

definition groupOf :: "(int \<times> noiSymbol list) list \<Rightarrow> int \<Rightarrow> noiSymbol list" where
  "groupOf groups b = (case map_of groups b of None \<Rightarrow> [] | Some xs \<Rightarrow> xs)"

text \<open>The symbol table of the end-to-end scenario.\<close>

definition exampleTable :: "noiSymbol list" where
  "exampleTable = [\<lparr>symbol = ''main'', addr = 0x150, bank = 0\<rparr>,
                   \<lparr>symbol = ''helper'', addr = 0x200, bank = 0\<rparr>]"

definition exampleData :: symbolData where
  "exampleData = loadNoi exampleTable"

definition mainRegion :: region where
  "mainRegion = \<lparr>symbol = ''main'', addr = 0x150, bank = 0, endAddr = 0x1ff\<rparr>"

definition helperRegion :: region where
  "helperRegion = \<lparr>symbol = ''helper'', addr = 0x200, bank = 0, endAddr = 0x3fff\<rparr>"

text \<open>
  The \<^verbatim>\<open>Close\<close> event that \<^verbatim>\<open>popFrame\<close> records for a popped frame at the time \<open>t\<close>: it
  carries the index of the frame's symbol and the time at which the frame was opened.
\<close>

definition closeEvent :: "(string \<rightharpoonup> nat) \<Rightarrow> int \<Rightarrow> stackFrame \<Rightarrow> event" where
  "closeEvent idx t f = Close t (idx (symbol f)) (clock f)"

text \<open>The frame that \<^verbatim>\<open>pushFrame\<close> creates for a region on a stack of the given depth.\<close>

definition newFrame :: "int \<Rightarrow> region \<Rightarrow> nat \<Rightarrow> stackFrame" where
  "newFrame t fn depth =
     \<lparr>symbol = symbol fn, addr = addr fn, clock = t, childPushed = False, openPrinted = False,
      indent = depth, prefix = (if take 4 (symbol fn) = ''INT_'' then ''[INT]'' else ''-'')\<rparr>"

text \<open>
  Replaying a trace on one stack of open occurrences, each the pair of the frame index and
  the opening time: an \<^verbatim>\<open>Open\<close> pushes its occurrence, a \<^verbatim>\<open>Close\<close> must name the occurrence on
  top of the stack and pops it. The result is \<open>None\<close> when some \<^verbatim>\<open>Close\<close> does not match
  the occurrence opened last, and otherwise the occurrences left open, the last one first.
\<close>

fun replay :: "event list \<Rightarrow> (nat option \<times> int) list \<Rightarrow> (nat option \<times> int) list option" where
  "replay [] opened = Some opened"
| "replay (Open t fr # es) opened = replay es ((fr, t) # opened)"
| "replay (Close t fr s # es) opened =
     (case opened of
        [] \<Rightarrow> None
      | (fr', t') # rest \<Rightarrow> if fr' = fr \<and> t' = s then replay es rest else None)"

fun isOpen :: "event \<Rightarrow> bool" where
  "isOpen (Open t fr) = True"
| "isOpen (Close t fr s) = False"

fun isClose :: "event \<Rightarrow> bool" where
  "isClose (Open t fr) = False"
| "isClose (Close t fr s) = True"

text \<open>A symbol table with a region that begins below the ignored vector area and ends above it.\<close>

definition lowTable :: "noiSymbol list" where
  "lowTable = [\<lparr>symbol = ''a'', addr = 0x100, bank = 0\<rparr>,
               \<lparr>symbol = ''b'', addr = 0x200, bank = 0\<rparr>]"

definition lowData :: symbolData where
  "lowData = loadNoi lowTable"

definition lowRegion :: region where
  "lowRegion = \<lparr>symbol = ''a'', addr = 0x100, bank = 0, endAddr = 0x1ff\<rparr>"

text \<open>
  The invariant of the tracker: the region held in \<^verbatim>\<open>currentFnRegion\<close> has the symbol
  of the frame on top of the stack.
\<close>

definition currentOnTop :: "trackerState \<Rightarrow> bool" where
  "currentOnTop st =
     (case currentFnRegion st of
        None \<Rightarrow> True
      | Some r \<Rightarrow> fnStack st \<noteq> [] \<and> symbol (last (fnStack st)) = symbol r)"

text \<open>The occurrence that a stack frame stands for: the index of its symbol and its opening time.\<close>

definition occurrence :: "(string \<rightharpoonup> nat) \<Rightarrow> stackFrame \<Rightarrow> nat option \<times> int" where
  "occurrence idx f = (idx (symbol f), clock f)"

text \<open>The duration that a report gives for a name; a name that the report does not list has none.\<close>

definition durationOf :: "(string \<times> int) list \<Rightarrow> string \<Rightarrow> int" where
  "durationOf report name = (case map_of report name of None \<Rightarrow> 0 | Some d \<Rightarrow> d)"








section \<open>Properties of parseNoi\<close>

lemma find_append_case:
  "find P (xs @ ys) = (case find P xs of None \<Rightarrow> find P ys | Some x \<Rightarrow> Some x)"
  by (induction xs) auto

lemma parseNoiLoop_find:
  "usedAddr = addrKey ` set result \<Longrightarrow>
   find (\<lambda>s. addrKey s = k) (parseNoiLoop result usedAddr ls)
   = find (\<lambda>s. addrKey s = k) (result @ map lineToSymbol ls)"
proof (induction ls arbitrary: result usedAddr)
  case Nil
  then show ?case by simp
next
  case (Cons l ls)
  show ?case
  proof (cases "addrKey (lineToSymbol l) \<in> usedAddr")
    case True
    then obtain r where r: "r \<in> set result" "addrKey r = addrKey (lineToSymbol l)"
      using Cons.prems by auto
    have "find (\<lambda>s. addrKey s = k) (result @ lineToSymbol l # map lineToSymbol ls)
          = find (\<lambda>s. addrKey s = k) (result @ map lineToSymbol ls)"
    proof (cases "k = addrKey (lineToSymbol l)")
      case True
      with r have "find (\<lambda>s. addrKey s = k) result \<noteq> None"
        by (auto simp: find_None_iff)
      then show ?thesis by (auto simp: find_append_case)
    next
      case False
      then show ?thesis by (auto simp: find_append_case split: option.splits)
    qed
    with True Cons.IH[OF Cons.prems] show ?thesis by simp
  next
    case False
    have "insert (addrKey (lineToSymbol l)) usedAddr = addrKey ` set (result @ [lineToSymbol l])"
      using Cons.prems by auto
    from Cons.IH[OF this] False show ?thesis by (simp add: Let_def)
  qed
qed

lemma parseNoiLoop_distinct:
  "usedAddr = addrKey ` set result \<Longrightarrow> distinct (map addrKey result) \<Longrightarrow>
   distinct (map addrKey (parseNoiLoop result usedAddr ls))"
proof (induction ls arbitrary: result usedAddr)
  case Nil
  then show ?case by simp
next
  case (Cons l ls)
  show ?case
  proof (cases "addrKey (lineToSymbol l) \<in> usedAddr")
    case True
    with Cons show ?thesis by simp
  next
    case False
    have "insert (addrKey (lineToSymbol l)) usedAddr = addrKey ` set (result @ [lineToSymbol l])"
      using Cons.prems by auto
    moreover have "distinct (map addrKey (result @ [lineToSymbol l]))"
      using Cons.prems False by auto
    ultimately have "distinct (map addrKey (parseNoiLoop (result @ [lineToSymbol l])
        (insert (addrKey (lineToSymbol l)) usedAddr) ls))"
      by (rule Cons.IH)
    with False show ?thesis by (simp add: Let_def)
  qed
qed

text \<open>
  Claim C10, as the code has it. The symbol table built by \<^verbatim>\<open>parseNoi\<close> holds at most one
  record for each pair of bank and normalised address, and for every such pair the record
  it holds is the first one met in the file (\<^const>\<open>find\<close> returns the first match):
  a later line with the same bank and address is dropped, the first write wins.
\<close>

theorem parseNoi_first_write_wins:
  "distinct (map addrKey (parseNoi ls)) \<and>
   find (\<lambda>s. addrKey s = k) (parseNoi ls) = find (\<lambda>s. addrKey s = k) (map lineToSymbol ls)"
  unfolding parseNoi_def
  using parseNoiLoop_distinct[of "{}" "[]" ls] parseNoiLoop_find[of "{}" "[]" k ls]
  by simp

text \<open>
  Claim C10 as stated (the last record met is the one retained) fails: of two lines
  \<^verbatim>\<open>_a\<close> and \<^verbatim>\<open>_b\<close> at address 0x150 the table keeps \<^verbatim>\<open>_a\<close>, while the last record met
  is the one of \<^verbatim>\<open>_b\<close>.
\<close>

theorem parseNoi_last_write_counterexample:
  "parseNoi [\<lparr>lineSymbol = ''_a'', lineAddr = Some 0x150\<rparr>,
             \<lparr>lineSymbol = ''_b'', lineAddr = Some 0x150\<rparr>]
     = [\<lparr>symbol = ''_a'', addr = 0x150, bank = 0\<rparr>]
   \<and> lineToSymbol \<lparr>lineSymbol = ''_b'', lineAddr = Some 0x150\<rparr>
     = \<lparr>symbol = ''_b'', addr = 0x150, bank = 0\<rparr>"
  by (simp add: parseNoi_def lineToSymbol_def addrKey_def symbolClean_def
      stripDollarSuffix_def stripFPrefix_def)

section \<open>Properties of generateFunctionRegions\<close>

lemma pushGroup_keys:
  "map fst (pushGroup fn groups)
   = (if bank fn \<in> set (map fst groups) then map fst groups else map fst groups @ [bank fn])"
  by (induction groups) force+

lemma pushGroup_distinct:
  "distinct (map fst groups) \<Longrightarrow> distinct (map fst (pushGroup fn groups))"
  by (simp add: pushGroup_keys)

lemma pushGroup_map_of:
  "map_of (pushGroup fn groups) b
   = (if b = bank fn then Some (groupOf groups b @ [fn]) else map_of groups b)"
  by (induction groups) (auto simp: groupOf_def)

lemma groupByBank_distinct:
  "distinct (map fst groups) \<Longrightarrow> distinct (map fst (groupByBank groups nl))"
  by (induction nl arbitrary: groups) (auto simp: pushGroup_distinct)

lemma groupByBank_map_of:
  "map_of (groupByBank groups nl) b = Some xs \<Longrightarrow>
   xs = groupOf groups b @ filter (\<lambda>s. bank s = b) nl"
proof (induction nl arbitrary: groups)
  case Nil
  then show ?case by (simp add: groupOf_def)
next
  case (Cons fn nl)
  from Cons.prems have "map_of (groupByBank (pushGroup fn groups) nl) b = Some xs" by simp
  from Cons.IH[OF this] show ?case
    by (auto simp: groupOf_def pushGroup_map_of)
qed

lemma groupByBank_entry:
  assumes "(b, xs) \<in> set (groupByBank [] nl)"
  shows "xs = filter (\<lambda>s. bank s = b) nl"
proof -
  have "distinct (map fst (groupByBank [] nl))" by (simp add: groupByBank_distinct)
  with assms have "map_of (groupByBank [] nl) b = Some xs" by simp
  from groupByBank_map_of[OF this] show ?thesis by (simp add: groupOf_def)
qed

lemma assignEnds_bank: "map bank (assignEnds m xs) = map bank xs"
  by (induction m xs rule: assignEnds.induct) (auto simp: withEnd_def)

lemma assignEnds_addr: "map addr (assignEnds m xs) = map addr xs"
  by (induction m xs rule: assignEnds.induct) (auto simp: withEnd_def)

lemma assignEnds_start_le_end:
  "sorted_wrt (<) (map addr xs) \<Longrightarrow> \<forall>s \<in> set xs. addr s \<le> m \<Longrightarrow>
   r \<in> set (assignEnds m xs) \<Longrightarrow> addr r \<le> endAddr r"
  by (induction m xs rule: assignEnds.induct) (auto simp: withEnd_def)

lemma assignEnds_hd: "xs \<noteq> [] \<Longrightarrow> addr (hd (assignEnds m xs)) = addr (hd xs)"
  by (induction m xs rule: assignEnds.induct) (auto simp: withEnd_def)

lemma assignEnds_separated:
  "sorted_wrt (<) (map addr xs) \<Longrightarrow>
   sorted_wrt (\<lambda>r r'. endAddr r < addr r') (assignEnds m xs)"
proof (induction m xs rule: assignEnds.induct)
  case (3 m s n rest)
  have "\<forall>r' \<in> set (assignEnds m (n # rest)). addr n \<le> addr r'"
  proof
    fix r' assume "r' \<in> set (assignEnds m (n # rest))"
    then have "addr r' \<in> set (map addr (assignEnds m (n # rest)))" by simp
    then have "addr r' \<in> set (map addr (n # rest))" by (simp only: assignEnds_addr)
    with 3 show "addr n \<le> addr r'" by auto
  qed
  with 3 show ?case by (auto simp: withEnd_def)
qed simp_all

lemma sorted_wrt_separated:
  assumes "sorted_wrt (\<lambda>r r'. endAddr r < addr r') rs" "r \<in> set rs" "r' \<in> set rs" "r \<noteq> r'"
  shows "endAddr r < addr r' \<or> endAddr r' < addr r"
proof -
  from assms obtain i j where ij: "i < length rs" "j < length rs" "rs ! i = r" "rs ! j = r'"
    by (auto simp: in_set_conv_nth)
  with assms have "i \<noteq> j" by auto
  then consider "i < j" | "j < i" by linarith
  then show ?thesis
    using assms(1) ij by cases (auto simp: sorted_wrt_iff_nth_less)
qed

lemma group_sorted_strict:
  assumes "distinct (map addrKey nl)"
  shows "sorted_wrt (<) (map addr (sort_key addr (filter (\<lambda>s. bank s = b) nl)))"
proof -
  have "distinct (map addr (filter (\<lambda>s. bank s = b) nl))"
    using assms by (induction nl) (auto simp: addrKey_def image_iff)
  then have "distinct (map addr (sort_key addr (filter (\<lambda>s. bank s = b) nl)))"
    by (metis distinct_map distinct_sort set_sort)
  then show ?thesis by (simp add: strict_sorted_iff)
qed

lemma region_in_group:
  assumes "r \<in> set (generateFunctionRegions nl)"
  shows "r \<in> set (assignEnds (bankAddrMax (bank r)) (sort_key addr (filter (\<lambda>s. bank s = bank r) nl)))"
proof -
  from assms obtain b xs where g: "(b, xs) \<in> set (groupByBank [] nl)"
    and r: "r \<in> set (assignEnds (bankAddrMax b) (sort_key addr xs))"
    by (auto simp: generateFunctionRegions_def regionsOfGroup_def)
  have xs: "xs = filter (\<lambda>s. bank s = b) nl" using g by (rule groupByBank_entry)
  from r have "bank r \<in> set (map bank (assignEnds (bankAddrMax b) (sort_key addr xs)))" by auto
  then have "bank r \<in> set (map bank xs)" by (simp add: assignEnds_bank)
  with xs have "bank r = b" by auto
  with r xs show ?thesis by simp
qed

lemma regions_separated:
  assumes "distinct (map addrKey nl)"
    and "r \<in> set (generateFunctionRegions nl)" "r' \<in> set (generateFunctionRegions nl)"
    and "r \<noteq> r'" "bank r = bank r'"
  shows "endAddr r < addr r' \<or> endAddr r' < addr r"
proof -
  let ?rs = "assignEnds (bankAddrMax (bank r)) (sort_key addr (filter (\<lambda>s. bank s = bank r) nl))"
  have "r \<in> set ?rs" "r' \<in> set ?rs" using assms region_in_group by force+
  moreover have "sorted_wrt (\<lambda>r r'. endAddr r < addr r') ?rs"
    by (rule assignEnds_separated) (rule group_sorted_strict[OF assms(1)])
  ultimately show ?thesis
    using assms(4) sorted_wrt_separated[of ?rs r r'] by simp
qed

lemma regions_start_le_end:
  assumes "distinct (map addrKey nl)"
    and bound: "\<forall>s \<in> set nl. addr s \<le> bankAddrMax (bank s)"
    and r: "r \<in> set (generateFunctionRegions nl)"
  shows "addr r \<le> endAddr r"
proof -
  let ?xs = "sort_key addr (filter (\<lambda>s. bank s = bank r) nl)"
  have "r \<in> set (assignEnds (bankAddrMax (bank r)) ?xs)" using r by (rule region_in_group)
  moreover have "sorted_wrt (<) (map addr ?xs)" by (rule group_sorted_strict[OF assms(1)])
  moreover have "\<forall>s \<in> set ?xs. addr s \<le> bankAddrMax (bank r)" using bound by auto
  ultimately show ?thesis by (blast intro: assignEnds_start_le_end)
qed

lemma region_has_symbol:
  assumes "r \<in> set (generateFunctionRegions nl)"
  shows "\<exists>s \<in> set nl. addr s = addr r \<and> bank s = bank r"
proof -
  let ?xs = "sort_key addr (filter (\<lambda>s. bank s = bank r) nl)"
  have "r \<in> set (assignEnds (bankAddrMax (bank r)) ?xs)" using assms by (rule region_in_group)
  then have "addr r \<in> set (map addr (assignEnds (bankAddrMax (bank r)) ?xs))" by simp
  then have "addr r \<in> set (map addr ?xs)" by (simp only: assignEnds_addr)
  then show ?thesis by auto
qed

text \<open>
  Claim C4, as the code has it. For a symbol table without two symbols at the same bank
  and address, two distinct regions of the same bank never share an address. If moreover
  no symbol lies above the maximum address of its bank (0x3FFF for bank 0, 0x7FFF for the
  others), every region has \<open>start \<le> end\<close>.
\<close>

theorem regions_disjoint_and_ordered:
  assumes "distinct (map addrKey nl)"
  shows "(\<forall>r \<in> set (generateFunctionRegions nl). \<forall>r' \<in> set (generateFunctionRegions nl).
            r \<noteq> r' \<and> bank r = bank r' \<longrightarrow> {addr r..endAddr r} \<inter> {addr r'..endAddr r'} = {})
       \<and> ((\<forall>s \<in> set nl. addr s \<le> bankAddrMax (bank s)) \<longrightarrow>
            (\<forall>r \<in> set (generateFunctionRegions nl). addr r \<le> endAddr r))"
proof (intro conjI ballI impI)
  fix r r'
  assume "r \<in> set (generateFunctionRegions nl)" "r' \<in> set (generateFunctionRegions nl)"
    and "r \<noteq> r' \<and> bank r = bank r'"
  then have "endAddr r < addr r' \<or> endAddr r' < addr r"
    using regions_separated[OF assms, of r r'] by simp
  then show "{addr r..endAddr r} \<inter> {addr r'..endAddr r'} = {}" by auto
next
  fix r
  assume "\<forall>s \<in> set nl. addr s \<le> bankAddrMax (bank s)"
    and "r \<in> set (generateFunctionRegions nl)"
  with assms show "addr r \<le> endAddr r" by (rule regions_start_le_end)
qed

lemma exampleTable_regions:
  "generateFunctionRegions exampleTable
   = [\<lparr>symbol = ''main'', addr = 0x150, bank = 0, endAddr = 0x1ff\<rparr>,
      \<lparr>symbol = ''helper'', addr = 0x200, bank = 0, endAddr = 0x3fff\<rparr>]"
  by (simp add: exampleTable_def generateFunctionRegions_def regionsOfGroup_def bankAddrMax_def withEnd_def)

text \<open>The table of the end-to-end scenario satisfies both hypotheses of the theorem.\<close>

theorem regions_disjoint_and_ordered_witness:
  "distinct (map addrKey exampleTable)
   \<and> list_all (\<lambda>s. addr s \<le> bankAddrMax (bank s)) exampleTable
   \<and> list_all (\<lambda>r. addr r \<le> endAddr r) (generateFunctionRegions exampleTable)
   \<and> {addr (generateFunctionRegions exampleTable ! 0)..endAddr (generateFunctionRegions exampleTable ! 0)}
       \<inter> {addr (generateFunctionRegions exampleTable ! 1)..endAddr (generateFunctionRegions exampleTable ! 1)}
       = {}"
proof -
  have d: "distinct (map addrKey exampleTable)"
    by (simp add: exampleTable_def addrKey_def)
  have b: "\<forall>s \<in> set exampleTable. addr s \<le> bankAddrMax (bank s)"
    by (simp add: exampleTable_def bankAddrMax_def)
  note both = regions_disjoint_and_ordered[OF d]
  from both b have ordered: "\<forall>r \<in> set (generateFunctionRegions exampleTable). addr r \<le> endAddr r"
    by blast
  have two: "generateFunctionRegions exampleTable ! 0 \<in> set (generateFunctionRegions exampleTable)"
    "generateFunctionRegions exampleTable ! 1 \<in> set (generateFunctionRegions exampleTable)"
    "generateFunctionRegions exampleTable ! 0 \<noteq> generateFunctionRegions exampleTable ! 1
     \<and> bank (generateFunctionRegions exampleTable ! 0) = bank (generateFunctionRegions exampleTable ! 1)"
    by (simp_all add: exampleTable_regions)
  from both two have "{addr (generateFunctionRegions exampleTable ! 0)..endAddr (generateFunctionRegions exampleTable ! 0)}
       \<inter> {addr (generateFunctionRegions exampleTable ! 1)..endAddr (generateFunctionRegions exampleTable ! 1)}
       = {}"
    by blast
  with d b ordered show ?thesis by (simp add: list_all_iff)
qed

text \<open>
  Claim C4 as stated (every region of a deduplicated table has \<open>start \<le> end\<close>) fails:
  the line \<^verbatim>\<open>DEF _v 0xC000\<close> passes \<^verbatim>\<open>parseNoi\<close> as a symbol of bank 0 at 0xC000, and its
  region ends at 0x3FFF, below its start.
\<close>

theorem regions_start_after_end_counterexample:
  "distinct (map addrKey (parseNoi [\<lparr>lineSymbol = ''_v'', lineAddr = Some 0xC000\<rparr>]))
   \<and> generateFunctionRegions (parseNoi [\<lparr>lineSymbol = ''_v'', lineAddr = Some 0xC000\<rparr>])
       = [\<lparr>symbol = ''_v'', addr = 0xC000, bank = 0, endAddr = 0x3fff\<rparr>]
   \<and> \<not> addr \<lparr>symbol = ''_v'', addr = 0xC000, bank = 0, endAddr = 0x3fff\<rparr>
         \<le> endAddr \<lparr>symbol = ''_v'', addr = 0xC000, bank = 0, endAddr = 0x3fff\<rparr>"
  by (simp add: parseNoi_def lineToSymbol_def addrKey_def symbolClean_def
      stripDollarSuffix_def stripFPrefix_def generateFunctionRegions_def regionsOfGroup_def
      bankAddrMax_def withEnd_def)

section \<open>The steps of the tracker\<close>

lemma currentFnRegion_pushFrame [simp]:
  "currentFnRegion (pushFrame idx t fn st) = currentFnRegion st"
  by (simp add: pushFrame_def Let_def)

lemma currentFnRegion_popFrame [simp]:
  "currentFnRegion (popFrame idx t fn st) = currentFnRegion st"
  by (cases "popFrameLoop idx t (map_option symbol fn) (fnStack st) (events st)")
    (simp add: popFrame_def)

lemma getCurrentFunctionRegion_cases:
  "getCurrentFunctionRegion rbb c pc bnk = Some r \<Longrightarrow> c = Some r \<or> searchRegion rbb pc bnk = Some r"
  by (auto simp: getCurrentFunctionRegion_def split: option.splits if_splits)

lemma onAfterInstruction_ignored:
  "pc < 336 \<Longrightarrow> onAfterInstruction sd st (pc, bnk, t) = st"
  by (simp add: onAfterInstruction_def)

lemma onAfterInstruction_unresolved:
  "getCurrentFunctionRegion (regionsByBank sd) (currentFnRegion st) pc bnk = None \<Longrightarrow>
   onAfterInstruction sd st (pc, bnk, t) = st"
  by (simp add: onAfterInstruction_def)

lemma onAfterInstruction_same:
  "getCurrentFunctionRegion (regionsByBank sd) (currentFnRegion st) pc bnk = Some r \<Longrightarrow>
   currentFnRegion st = Some r \<Longrightarrow>
   onAfterInstruction sd st (pc, bnk, t) = st"
  by (simp add: onAfterInstruction_def)

lemma onAfterInstruction_entry:
  "336 \<le> pc \<Longrightarrow>
   getCurrentFunctionRegion (regionsByBank sd) (currentFnRegion st) pc bnk = Some r \<Longrightarrow>
   currentFnRegion st \<noteq> Some r \<Longrightarrow> pc = addr r \<Longrightarrow>
   onAfterInstruction sd st (pc, bnk, t)
   = (pushFrame (noiIndex sd) t r st)\<lparr>currentFnRegion := Some r\<rparr>"
  by (simp add: onAfterInstruction_def)

lemma onAfterInstruction_return:
  "336 \<le> pc \<Longrightarrow>
   getCurrentFunctionRegion (regionsByBank sd) (currentFnRegion st) pc bnk = Some r \<Longrightarrow>
   currentFnRegion st \<noteq> Some r \<Longrightarrow> pc \<noteq> addr r \<Longrightarrow> fnStackContains (fnStack st) r \<Longrightarrow>
   onAfterInstruction sd st (pc, bnk, t)
   = (popFrame (noiIndex sd) t (Some r) st)\<lparr>currentFnRegion := Some r\<rparr>"
  by (simp add: onAfterInstruction_def)

lemma onAfterInstruction_mid_entry:
  "336 \<le> pc \<Longrightarrow>
   getCurrentFunctionRegion (regionsByBank sd) (currentFnRegion st) pc bnk = Some r \<Longrightarrow>
   currentFnRegion st \<noteq> Some r \<Longrightarrow> pc \<noteq> addr r \<Longrightarrow> \<not> fnStackContains (fnStack st) r \<Longrightarrow>
   onAfterInstruction sd st (pc, bnk, t)
   = (pushFrame (noiIndex sd) t r st)\<lparr>currentFnRegion := Some r\<rparr>"
  by (simp add: onAfterInstruction_def)

lemma onAfterInstruction_cache:
  "currentFnRegion (onAfterInstruction sd st (pc, bnk, t)) = currentFnRegion st
   \<or> currentFnRegion (onAfterInstruction sd st (pc, bnk, t))
       = getCurrentFunctionRegion (regionsByBank sd) (currentFnRegion st) pc bnk"
proof (cases "pc < 336")
  case True
  then show ?thesis by (simp add: onAfterInstruction_ignored)
next
  case False
  show ?thesis
  proof (cases "getCurrentFunctionRegion (regionsByBank sd) (currentFnRegion st) pc bnk")
    case None
    then show ?thesis by (simp add: onAfterInstruction_unresolved)
  next
    case (Some r)
    show ?thesis
    proof (cases "currentFnRegion st = Some r")
      case True
      with Some show ?thesis by (simp add: onAfterInstruction_same)
    next
      case diff: False
      show ?thesis
      proof (cases "pc = addr r")
        case True
        with False Some diff show ?thesis by (simp add: onAfterInstruction_entry)
      next
        case mid: False
        with False Some diff show ?thesis
          by (cases "fnStackContains (fnStack st) r")
            (simp_all add: onAfterInstruction_return onAfterInstruction_mid_entry)
      qed
    qed
  qed
qed

section \<open>Properties of getCurrentFunctionRegion\<close>

lemma loadNoi_simps:
  "noiLookup (loadNoi nl) = nl"
  "functionRegions (loadNoi nl) = generateFunctionRegions nl"
  "regionsByBank (loadNoi nl) = regionsByBankOf (generateFunctionRegions nl)"
  "noiIndex (loadNoi nl) = noiIndexOf nl"
  by (simp_all add: loadNoi_def)

lemma regionsByBank_foldl:
  "foldl (\<lambda>m r. m(bank r \<mapsto> (case m (bank r) of None \<Rightarrow> [] | Some rs \<Rightarrow> rs) @ [r])) m regions b
   = (if filter (\<lambda>r. bank r = b) regions = [] then m b
      else Some ((case m b of None \<Rightarrow> [] | Some rs \<Rightarrow> rs) @ filter (\<lambda>r. bank r = b) regions))"
  by (induction regions arbitrary: m) auto

lemma regionsByBankOf_eq:
  "regionsByBankOf regions b
   = (if filter (\<lambda>r. bank r = b) regions = [] then None
      else Some (filter (\<lambda>r. bank r = b) regions))"
  by (simp add: regionsByBankOf_def regionsByBank_foldl)

lemma find_SomeD: "find P xs = Some x \<Longrightarrow> x \<in> set xs \<and> P x"
  by (induction xs) (auto split: if_splits)

lemma searchRegion_SomeD:
  assumes "searchRegion (regionsByBankOf regions) pc bnk = Some r"
  shows "r \<in> set regions \<and> bank r = (if pc < 0x4000 then 0 else bnk) \<and> addr r \<le> pc \<and> pc \<le> endAddr r"
proof -
  define tb where "tb = (if pc < 0x4000 then 0 else bnk)"
  from assms have "find (\<lambda>fn. addr fn \<le> pc \<and> pc \<le> endAddr fn) (filter (\<lambda>r. bank r = tb) regions) = Some r"
    by (simp add: searchRegion_def regionsByBankOf_eq tb_def[symmetric] split: if_splits)
  from find_SomeD[OF this] show ?thesis by (simp add: tb_def[symmetric])
qed

lemma find_unique:
  assumes "x \<in> set xs" "P x" "\<forall>y \<in> set xs. P y \<longrightarrow> y = x"
  shows "find P xs = Some x"
proof -
  from assms(1,2) have "find P xs \<noteq> None" by (auto simp: find_None_iff)
  then obtain y where y: "find P xs = Some y" by blast
  then have "y \<in> set xs \<and> P y" by (rule find_SomeD)
  with assms(3) have "y = x" by blast
  with y show ?thesis by simp
qed

lemma searchRegion_SomeI:
  assumes dedup: "distinct (map addrKey nl)"
    and r: "r \<in> set (generateFunctionRegions nl)" "bank r = (if pc < 0x4000 then 0 else bnk)"
      "addr r \<le> pc" "pc \<le> endAddr r"
  shows "searchRegion (regionsByBankOf (generateFunctionRegions nl)) pc bnk = Some r"
proof -
  define tb where "tb = (if pc < 0x4000 then 0 else bnk)"
  define xs where "xs = filter (\<lambda>r. bank r = tb) (generateFunctionRegions nl)"
  have mem: "r \<in> set xs" using r by (simp add: xs_def tb_def)
  have "find (\<lambda>fn. addr fn \<le> pc \<and> pc \<le> endAddr fn) xs = Some r"
  proof (rule find_unique[OF mem], goal_cases)
    case 1
    show ?case using r by simp
  next
    case 2
    show ?case
    proof (intro ballI impI)
    fix y assume y: "y \<in> set xs" "addr y \<le> pc \<and> pc \<le> endAddr y"
    show "y = r"
    proof (rule ccontr)
      assume "y \<noteq> r"
      moreover have "y \<in> set (generateFunctionRegions nl)" "bank y = bank r"
        using y r by (simp_all add: xs_def tb_def)
      ultimately have "endAddr y < addr r \<or> endAddr r < addr y"
        using regions_separated[OF dedup, of y r] r(1) by blast
      with y r show False by auto
    qed
    qed
  qed
  moreover have "xs \<noteq> []" using mem by auto
  ultimately show ?thesis
    by (simp add: searchRegion_def regionsByBankOf_eq tb_def[symmetric] xs_def[symmetric])
qed

lemma cache_in_regions:
  "currentFnRegion (runTracker (loadNoi nl) obs) = Some r \<Longrightarrow> r \<in> set (generateFunctionRegions nl)"
proof (induction obs arbitrary: r rule: rev_induct)
  case Nil
  then show ?case by (simp add: runTracker_def initialState_def)
next
  case (snoc ob obs)
  obtain pc bnk t where ob: "ob = (pc, bnk, t)" by (cases ob) auto
  let ?st = "runTracker (loadNoi nl) obs"
  have step: "runTracker (loadNoi nl) (obs @ [ob]) = onAfterInstruction (loadNoi nl) ?st (pc, bnk, t)"
    by (simp add: runTracker_def ob)
  from onAfterInstruction_cache[of "loadNoi nl" ?st pc bnk t] show ?case
  proof
    assume "currentFnRegion (onAfterInstruction (loadNoi nl) ?st (pc, bnk, t)) = currentFnRegion ?st"
    with snoc step show ?thesis by simp
  next
    assume "currentFnRegion (onAfterInstruction (loadNoi nl) ?st (pc, bnk, t))
       = getCurrentFunctionRegion (regionsByBank (loadNoi nl)) (currentFnRegion ?st) pc bnk"
    with snoc.prems step
    have "getCurrentFunctionRegion (regionsByBank (loadNoi nl)) (currentFnRegion ?st) pc bnk = Some r"
      by simp
    from getCurrentFunctionRegion_cases[OF this] show ?thesis
    proof
      assume "currentFnRegion ?st = Some r"
      with snoc.IH show ?thesis by simp
    next
      assume "searchRegion (regionsByBank (loadNoi nl)) pc bnk = Some r"
      then have "searchRegion (regionsByBankOf (generateFunctionRegions nl)) pc bnk = Some r"
        by (simp add: loadNoi_simps)
      from searchRegion_SomeD[OF this] show ?thesis by simp
    qed
  qed
qed

text \<open>
  Claim C5. Let the symbol table have no two symbols at the same bank and address, the
  symbols of bank 0 below 0x4000 and those of the other banks between 0x4000 and 0x7FFF.
  In every state the tracker reaches, whatever region its cache \<^verbatim>\<open>currentFnRegion\<close> holds,
  the cached lookup returns for every \<open>(pc, bank)\<close> what the search without the cache
  returns; and the search returns a region exactly if that region belongs to the list of
  the target bank (bank 0 for an address below 0x4000, the given bank otherwise) and
  contains the address, so there is at most one such region and none is returned only if
  there is none.
\<close>

theorem cached_lookup_equals_search:
  assumes dedup: "distinct (map addrKey nl)"
    and ranges: "\<forall>s \<in> set nl. (bank s = 0 \<longrightarrow> addr s < 0x4000)
                   \<and> (bank s \<noteq> 0 \<longrightarrow> 0x4000 \<le> addr s \<and> addr s \<le> 0x7fff)"
  shows "getCurrentFunctionRegion (regionsByBank (loadNoi nl))
           (currentFnRegion (runTracker (loadNoi nl) obs)) pc bnk
         = searchRegion (regionsByBank (loadNoi nl)) pc bnk
       \<and> (\<forall>r. searchRegion (regionsByBank (loadNoi nl)) pc bnk = Some r \<longleftrightarrow>
              r \<in> set (functionRegions (loadNoi nl))
              \<and> bank r = (if pc < 0x4000 then 0 else bnk)
              \<and> addr r \<le> pc \<and> pc \<le> endAddr r)"
proof
  show "\<forall>r. searchRegion (regionsByBank (loadNoi nl)) pc bnk = Some r \<longleftrightarrow>
              r \<in> set (functionRegions (loadNoi nl))
              \<and> bank r = (if pc < 0x4000 then 0 else bnk)
              \<and> addr r \<le> pc \<and> pc \<le> endAddr r"
  proof (intro allI iffI)
    fix r assume "searchRegion (regionsByBank (loadNoi nl)) pc bnk = Some r"
    then have "searchRegion (regionsByBankOf (generateFunctionRegions nl)) pc bnk = Some r"
      by (simp add: loadNoi_simps)
    from searchRegion_SomeD[OF this]
    show "r \<in> set (functionRegions (loadNoi nl))
              \<and> bank r = (if pc < 0x4000 then 0 else bnk)
              \<and> addr r \<le> pc \<and> pc \<le> endAddr r"
      by (simp add: loadNoi_simps)
  next
    fix r assume "r \<in> set (functionRegions (loadNoi nl))
              \<and> bank r = (if pc < 0x4000 then 0 else bnk)
              \<and> addr r \<le> pc \<and> pc \<le> endAddr r"
    then have "searchRegion (regionsByBankOf (generateFunctionRegions nl)) pc bnk = Some r"
      by (intro searchRegion_SomeI[OF dedup]) (simp_all add: loadNoi_simps)
    then show "searchRegion (regionsByBank (loadNoi nl)) pc bnk = Some r"
      by (simp add: loadNoi_simps)
  qed
next
  let ?rbb = "regionsByBank (loadNoi nl)"
  let ?c = "currentFnRegion (runTracker (loadNoi nl) obs)"
  show "getCurrentFunctionRegion ?rbb ?c pc bnk = searchRegion ?rbb pc bnk"
  proof (cases ?c)
    case None
    then show ?thesis by (simp add: getCurrentFunctionRegion_def)
  next
    case (Some fn)
    then have fn: "fn \<in> set (generateFunctionRegions nl)" by (rule cache_in_regions)
    show ?thesis
    proof (cases "addr fn \<le> pc \<and> pc \<le> endAddr fn \<and> (pc < 0x4000 \<or> bank fn = bnk)")
      case False
      with Some show ?thesis by (auto simp: getCurrentFunctionRegion_def)
    next
      case True
      obtain s where s: "s \<in> set nl" "addr s = addr fn" "bank s = bank fn"
        using region_has_symbol[OF fn] by blast
      have "bank fn = (if pc < 0x4000 then 0 else bnk)"
      proof (cases "pc < 0x4000")
        case low: True
        have "bank fn = 0"
        proof (rule ccontr)
          assume "bank fn \<noteq> 0"
          with s ranges have "0x4000 \<le> addr fn" by auto
          with True low show False by simp
        qed
        with low show ?thesis by simp
      next
        case False
        with True show ?thesis by simp
      qed
      with True fn have "searchRegion (regionsByBankOf (generateFunctionRegions nl)) pc bnk = Some fn"
        by (intro searchRegion_SomeI[OF dedup]) simp_all
      with True Some show ?thesis by (simp add: getCurrentFunctionRegion_def loadNoi_simps)
    qed
  qed
qed

text \<open>
  The table of the end-to-end scenario meets the hypotheses; after the observation
  \<open>(0x150, 0, 0)\<close> the cache holds the region of \<^verbatim>\<open>main\<close>, and the lookup of 0x160 with
  bank 3 mapped agrees with the search.
\<close>

theorem cached_lookup_equals_search_witness:
  "distinct (map addrKey exampleTable)
   \<and> list_all (\<lambda>s. (bank s = 0 \<and> addr s < 0x4000) \<or> (bank s \<noteq> 0 \<and> 0x4000 \<le> addr s \<and> addr s \<le> 0x7fff))
        exampleTable
   \<and> getCurrentFunctionRegion (regionsByBank (loadNoi exampleTable))
        (currentFnRegion (runTracker (loadNoi exampleTable) [(0x150, 0, 0)])) 0x160 3
      = searchRegion (regionsByBank (loadNoi exampleTable)) 0x160 3
   \<and> searchRegion (regionsByBank (loadNoi exampleTable)) 0x160 3
      = Some \<lparr>symbol = ''main'', addr = 0x150, bank = 0, endAddr = 0x1ff\<rparr>"
proof -
  have d: "distinct (map addrKey exampleTable)"
    by (simp add: exampleTable_def addrKey_def)
  have ranges: "\<forall>s \<in> set exampleTable. (bank s = 0 \<longrightarrow> addr s < 0x4000)
                   \<and> (bank s \<noteq> 0 \<longrightarrow> 0x4000 \<le> addr s \<and> addr s \<le> 0x7fff)"
    by (simp add: exampleTable_def)
  have l: "list_all (\<lambda>s. (bank s = 0 \<and> addr s < 0x4000) \<or> (bank s \<noteq> 0 \<and> 0x4000 \<le> addr s \<and> addr s \<le> 0x7fff))
        exampleTable"
    by (simp add: exampleTable_def)
  have s: "searchRegion (regionsByBank (loadNoi exampleTable)) 0x160 3
      = Some \<lparr>symbol = ''main'', addr = 0x150, bank = 0, endAddr = 0x1ff\<rparr>"
    by (simp add: loadNoi_simps exampleTable_regions searchRegion_def regionsByBankOf_def)
  from cached_lookup_equals_search[OF d ranges, of "[(0x150, 0, 0)]" "0x160" 3] d l s
  show ?thesis by simp
qed

section \<open>Properties of the tracker\<close>

lemma popFrameLoop_eq:
  "popFrameLoop idx t fs stack evs
   = (rev (dropWhile (\<lambda>f. Some (symbol f) \<noteq> fs) (rev stack)),
      evs @ map (closeEvent idx t) (takeWhile (\<lambda>f. Some (symbol f) \<noteq> fs) (rev stack)))"
proof (induction stack arbitrary: evs rule: rev_induct)
  case Nil
  then show ?case by (simp add: popFrameLoop.simps)
next
  case (snoc x xs)
  show ?case
  proof (cases "Some (symbol x) \<noteq> fs")
    case True
    then have "popFrameLoop idx t fs (xs @ [x]) evs
               = popFrameLoop idx t fs xs (evs @ [closeEvent idx t x])"
      by (subst popFrameLoop.simps) (simp add: closeEvent_def)
    with True snoc show ?thesis by simp
  next
    case False
    then have "popFrameLoop idx t fs (xs @ [x]) evs = (xs @ [x], evs)"
      by (subst popFrameLoop.simps) simp
    with False show ?thesis by simp
  qed
qed

lemma popFrame_eq:
  "popFrame idx t fn st
   = st\<lparr>fnStack := rev (dropWhile (\<lambda>f. Some (symbol f) \<noteq> map_option symbol fn) (rev (fnStack st))),
        events := events st @ map (closeEvent idx t)
                    (takeWhile (\<lambda>f. Some (symbol f) \<noteq> map_option symbol fn) (rev (fnStack st)))\<rparr>"
  by (simp add: popFrame_def popFrameLoop_eq)

lemma pushFrame_eq:
  "pushFrame idx t fn st
   = st\<lparr>fnStack := markParent (fnStack st) @ [newFrame t fn (length (fnStack st))],
        events := events st @ [Open t (idx (symbol fn))]\<rparr>"
  by (simp add: pushFrame_def newFrame_def Let_def markParent_def)

lemma topmost_split:
  assumes "list_ex P stack"
  shows "\<exists>below m above. stack = below @ [m] @ above \<and> P m \<and> \<not> list_ex P above
         \<and> rev (dropWhile (\<lambda>f. \<not> P f) (rev stack)) = below @ [m]
         \<and> takeWhile (\<lambda>f. \<not> P f) (rev stack) = rev above"
proof -
  from assms have "\<exists>x \<in> set (rev stack). P x" by (simp add: list_ex_iff)
  then have ne: "dropWhile (\<lambda>f. \<not> P f) (rev stack) \<noteq> []" by (simp add: dropWhile_eq_Nil_conv)
  then obtain m rest where d: "dropWhile (\<lambda>f. \<not> P f) (rev stack) = m # rest"
    by (cases "dropWhile (\<lambda>f. \<not> P f) (rev stack)") auto
  then have pm: "P m" using hd_dropWhile[OF ne] by simp
  define above where "above = rev (takeWhile (\<lambda>f. \<not> P f) (rev stack))"
  have "rev stack = rev above @ m # rest"
    using takeWhile_dropWhile_id[of "\<lambda>f. \<not> P f" "rev stack"] d by (simp add: above_def)
  then have "stack = rev rest @ [m] @ above" by (simp add: rev_swap)
  moreover have "\<not> list_ex P above"
    by (auto simp: above_def list_ex_iff dest: set_takeWhileD)
  moreover have "rev (dropWhile (\<lambda>f. \<not> P f) (rev stack)) = rev rest @ [m]" using d by simp
  moreover have "takeWhile (\<lambda>f. \<not> P f) (rev stack) = rev above" by (simp add: above_def)
  ultimately show ?thesis using pm by blast
qed

lemma popFrame_return_split:
  assumes "fnStackContains (fnStack st) R"
  shows "\<exists>below m above.
           fnStack st = below @ [m] @ above
           \<and> symbol m = symbol R
           \<and> \<not> fnStackContains above R
           \<and> popFrame idx t (Some R) st
             = st\<lparr>fnStack := below @ [m],
                  events := events st @ map (closeEvent idx t) (rev above)\<rparr>"
proof -
  let ?P = "\<lambda>f. symbol f = symbol R"
  from assms have "list_ex ?P (fnStack st)" by (simp add: fnStackContains_def)
  from topmost_split[OF this] obtain below m above where
    s: "fnStack st = below @ [m] @ above" "symbol m = symbol R" "\<not> list_ex ?P above"
       "rev (dropWhile (\<lambda>f. \<not> ?P f) (rev (fnStack st))) = below @ [m]"
       "takeWhile (\<lambda>f. \<not> ?P f) (rev (fnStack st)) = rev above"
    by blast
  have "popFrame idx t (Some R) st
        = st\<lparr>fnStack := below @ [m], events := events st @ map (closeEvent idx t) (rev above)\<rparr>"
    using s(4,5) by (simp add: popFrame_eq)
  with s(1,2,3) show ?thesis by (auto simp: fnStackContains_def)
qed

lemma markParent_fields:
  "map symbol (markParent stack) = map symbol stack"
  "map clock (markParent stack) = map clock stack"
  "length (markParent stack) = length stack"
proof -
  have "stack \<noteq> [] \<Longrightarrow> map symbol (butlast stack) @ [symbol (last stack)] = map symbol stack"
    "stack \<noteq> [] \<Longrightarrow> map clock (butlast stack) @ [clock (last stack)] = map clock stack"
    by (induction stack) auto
  then show "map symbol (markParent stack) = map symbol stack"
    "map clock (markParent stack) = map clock stack"
    "length (markParent stack) = length stack"
    by (auto simp: markParent_def)
qed

lemma currentOnTop_step:
  assumes "currentOnTop st"
  shows "currentOnTop (onAfterInstruction sd st (pc, bnk, t))"
proof (cases "pc < 336")
  case True
  with assms show ?thesis by (simp add: onAfterInstruction_ignored)
next
  case False
  show ?thesis
  proof (cases "getCurrentFunctionRegion (regionsByBank sd) (currentFnRegion st) pc bnk")
    case None
    with assms show ?thesis by (simp add: onAfterInstruction_unresolved)
  next
    case (Some r)
    show ?thesis
    proof (cases "currentFnRegion st = Some r")
      case True
      with Some assms show ?thesis by (simp add: onAfterInstruction_same)
    next
      case diff: False
      show ?thesis
      proof (cases "pc = addr r")
        case True
        with False Some diff show ?thesis
          by (simp add: onAfterInstruction_entry pushFrame_eq currentOnTop_def newFrame_def)
      next
        case mid: False
        show ?thesis
        proof (cases "fnStackContains (fnStack st) r")
          case True
          from popFrame_return_split[OF True, of "noiIndex sd" t] mid False Some diff True
          show ?thesis
            by (auto simp: onAfterInstruction_return currentOnTop_def)
        next
          case False
          with mid \<open>\<not> pc < 336\<close> Some diff show ?thesis
            by (simp add: onAfterInstruction_mid_entry pushFrame_eq currentOnTop_def newFrame_def)
        qed
      qed
    qed
  qed
qed

lemma currentOnTop_run: "currentOnTop (runTracker sd obs)"
proof (induction obs rule: rev_induct)
  case Nil
  show ?case by (simp add: runTracker_def initialState_def currentOnTop_def)
next
  case (snoc ob obs)
  obtain pc bnk t where "ob = (pc, bnk, t)" by (cases ob) auto
  with currentOnTop_step[OF snoc, of sd pc bnk t] show ?case
    by (simp add: runTracker_def)
qed

lemma exampleData_run2:
  "runTracker exampleData [(0x150, 0, 0), (0x200, 0, 10)]
   = \<lparr>currentFnRegion = Some helperRegion,
      fnStack = [\<lparr>symbol = ''main'', addr = 0x150, clock = 0, childPushed = True,
                   openPrinted = True, indent = 0, prefix = ''-''\<rparr>,
                 \<lparr>symbol = ''helper'', addr = 0x200, clock = 10, childPushed = False,
                   openPrinted = False, indent = 1, prefix = ''-''\<rparr>],
      events = [Open 0 (Some 0), Open 10 (Some 1)]\<rparr>"
  by code_simp

lemma lowData_run2:
  "runTracker lowData [(0x160, 0, 0), (0x200, 0, 10)]
   = \<lparr>currentFnRegion = Some \<lparr>symbol = ''b'', addr = 0x200, bank = 0, endAddr = 0x3fff\<rparr>,
      fnStack = [\<lparr>symbol = ''a'', addr = 0x100, clock = 0, childPushed = True,
                   openPrinted = True, indent = 0, prefix = ''-''\<rparr>,
                 \<lparr>symbol = ''b'', addr = 0x200, clock = 10, childPushed = False,
                   openPrinted = False, indent = 1, prefix = ''-''\<rparr>],
      events = [Open 0 (Some 0), Open 10 (Some 1)]\<rparr>"
  by code_simp

text \<open>
  Claim C3, as the code has it: the claim holds for the observations that the handler does
  not ignore, those with \<open>pc \<ge> 336\<close>. Let such an observation resolve to a region \<open>R\<close>
  other than the current one, with \<open>pc\<close> not the start of \<open>R\<close> and the symbol of \<open>R\<close> on
  the stack. Then the stack is \<open>below @ [m] @ above\<close> where \<open>m\<close> is the topmost frame with
  the symbol of \<open>R\<close>; the handler pops exactly the frames of \<open>above\<close>, from the top down,
  and records for each a \<^verbatim>\<open>Close\<close> event at the time of the observation with the frame's
  symbol index and opening time; \<open>m\<close> is the new top, the frames below it are unchanged,
  and the current region is \<open>R\<close>.
\<close>

theorem return_unwinds_to_topmost_match:
  assumes "336 \<le> pc"
    and "getCurrentFunctionRegion (regionsByBank sd) (currentFnRegion st) pc bnk = Some R"
    and "currentFnRegion st \<noteq> Some R"
    and "pc \<noteq> addr R"
    and "fnStackContains (fnStack st) R"
  shows "\<exists>below m above.
           fnStack st = below @ [m] @ above
           \<and> symbol m = symbol R
           \<and> \<not> fnStackContains above R
           \<and> onAfterInstruction sd st (pc, bnk, t)
             = \<lparr>currentFnRegion = Some R,
                fnStack = below @ [m],
                events = events st @ map (closeEvent (noiIndex sd) t) (rev above)\<rparr>"
proof -
  from popFrame_return_split[OF assms(5), of "noiIndex sd" t] obtain below m above where
    s: "fnStack st = below @ [m] @ above" "symbol m = symbol R" "\<not> fnStackContains above R"
       "popFrame (noiIndex sd) t (Some R) st
        = st\<lparr>fnStack := below @ [m],
             events := events st @ map (closeEvent (noiIndex sd) t) (rev above)\<rparr>"
    by blast
  have "onAfterInstruction sd st (pc, bnk, t)
        = (popFrame (noiIndex sd) t (Some R) st)\<lparr>currentFnRegion := Some R\<rparr>"
    using assms by (rule onAfterInstruction_return)
  with s(4) have "onAfterInstruction sd st (pc, bnk, t)
        = \<lparr>currentFnRegion = Some R, fnStack = below @ [m],
           events = events st @ map (closeEvent (noiIndex sd) t) (rev above)\<rparr>"
    by simp
  with s(1,2,3) show ?thesis by blast
qed

text \<open>
  In the end-to-end scenario, after \<^verbatim>\<open>main\<close> and \<^verbatim>\<open>helper\<close> were entered, the observation
  \<open>(0x151, 0, 20)\<close> lies inside \<^verbatim>\<open>main\<close> and meets the hypotheses.
\<close>

theorem return_unwinds_to_topmost_match_witness:
  "336 \<le> (0x151 :: int)
   \<and> getCurrentFunctionRegion (regionsByBank exampleData)
        (currentFnRegion (runTracker exampleData [(0x150, 0, 0), (0x200, 0, 10)])) 0x151 0
      = Some mainRegion
   \<and> currentFnRegion (runTracker exampleData [(0x150, 0, 0), (0x200, 0, 10)]) \<noteq> Some mainRegion
   \<and> 0x151 \<noteq> addr mainRegion
   \<and> fnStackContains (fnStack (runTracker exampleData [(0x150, 0, 0), (0x200, 0, 10)])) mainRegion
   \<and> (\<exists>below m above.
           fnStack (runTracker exampleData [(0x150, 0, 0), (0x200, 0, 10)]) = below @ [m] @ above
           \<and> symbol m = symbol mainRegion
           \<and> \<not> fnStackContains above mainRegion
           \<and> onAfterInstruction exampleData (runTracker exampleData [(0x150, 0, 0), (0x200, 0, 10)])
                (0x151, 0, 20)
             = \<lparr>currentFnRegion = Some mainRegion,
                fnStack = below @ [m],
                events = events (runTracker exampleData [(0x150, 0, 0), (0x200, 0, 10)])
                           @ map (closeEvent (noiIndex exampleData) 20) (rev above)\<rparr>)"
proof -
  let ?st = "runTracker exampleData [(0x150, 0, 0), (0x200, 0, 10)]"
  have h1: "336 \<le> (0x151 :: int)" by simp
  have h2: "getCurrentFunctionRegion (regionsByBank exampleData) (currentFnRegion ?st) 0x151 0
            = Some mainRegion"
    by code_simp
  have h3: "currentFnRegion ?st \<noteq> Some mainRegion"
    by (simp add: exampleData_run2 helperRegion_def mainRegion_def)
  have h4: "0x151 \<noteq> addr mainRegion" by (simp add: mainRegion_def)
  have h5: "fnStackContains (fnStack ?st) mainRegion"
    by (simp add: exampleData_run2 fnStackContains_def mainRegion_def)
  from return_unwinds_to_topmost_match[OF h1 h2 h3 h4 h5, of 20] h1 h2 h3 h4 h5
  show ?thesis by blast
qed

text \<open>
  Claim C3 as stated, for every observation, fails below the threshold. With the regions
  \<^verbatim>\<open>a\<close> from 0x100 to 0x1FF and \<^verbatim>\<open>b\<close> from 0x200, after \<^verbatim>\<open>a\<close> and \<^verbatim>\<open>b\<close> were entered, the
  observation \<open>(0x120, 0, 20)\<close> resolves to \<^verbatim>\<open>a\<close>, which is not the current region, is on the
  stack and does not start at 0x120; the handler returns at once, the frame of \<^verbatim>\<open>b\<close> stays
  on top and the current region stays \<^verbatim>\<open>b\<close>.
\<close>

theorem return_below_threshold_counterexample:
  "getCurrentFunctionRegion (regionsByBank lowData)
        (currentFnRegion (runTracker lowData [(0x160, 0, 0), (0x200, 0, 10)])) 0x120 0
      = Some lowRegion
   \<and> currentFnRegion (runTracker lowData [(0x160, 0, 0), (0x200, 0, 10)]) \<noteq> Some lowRegion
   \<and> 0x120 \<noteq> addr lowRegion
   \<and> fnStackContains (fnStack (runTracker lowData [(0x160, 0, 0), (0x200, 0, 10)])) lowRegion
   \<and> onAfterInstruction lowData (runTracker lowData [(0x160, 0, 0), (0x200, 0, 10)]) (0x120, 0, 20)
      = runTracker lowData [(0x160, 0, 0), (0x200, 0, 10)]
   \<and> map symbol (fnStack (runTracker lowData [(0x160, 0, 0), (0x200, 0, 10)])) = [''a'', ''b'']"
proof -
  have "getCurrentFunctionRegion (regionsByBank lowData)
        (currentFnRegion (runTracker lowData [(0x160, 0, 0), (0x200, 0, 10)])) 0x120 0
      = Some lowRegion"
    by code_simp
  then show ?thesis
    by (simp add: lowData_run2 lowRegion_def fnStackContains_def onAfterInstruction_ignored)
qed

text \<open>
  Claim C9, as the code has it: the claim holds for the observations that the handler does
  not ignore, those with \<open>pc \<ge> 336\<close>. In every state the tracker reaches, such an
  observation that resolves to a region \<open>R\<close>, with \<open>pc\<close> not the start of \<open>R\<close> and the
  symbol of \<open>R\<close> absent from the stack (which may be empty), pushes exactly one frame for
  \<open>R\<close> and records its \<^verbatim>\<open>Open\<close> event: no frame is popped and no \<^verbatim>\<open>Close\<close> event is
  recorded. The frames already on the stack keep their symbols and opening times; only
  the flags of the former top frame are set.
\<close>

theorem mid_region_entry_pushes_one_frame:
  assumes "336 \<le> pc"
    and "getCurrentFunctionRegion (regionsByBank sd) (currentFnRegion (runTracker sd obs)) pc bnk = Some R"
    and "pc \<noteq> addr R"
    and "\<not> fnStackContains (fnStack (runTracker sd obs)) R"
  shows "onAfterInstruction sd (runTracker sd obs) (pc, bnk, t)
         = \<lparr>currentFnRegion = Some R,
            fnStack = markParent (fnStack (runTracker sd obs))
                        @ [newFrame t R (length (fnStack (runTracker sd obs)))],
            events = events (runTracker sd obs) @ [Open t (noiIndex sd (symbol R))]\<rparr>
       \<and> map symbol (markParent (fnStack (runTracker sd obs))) = map symbol (fnStack (runTracker sd obs))
       \<and> map clock (markParent (fnStack (runTracker sd obs))) = map clock (fnStack (runTracker sd obs))"
proof -
  let ?st = "runTracker sd obs"
  have "currentFnRegion ?st \<noteq> Some R"
  proof
    assume c: "currentFnRegion ?st = Some R"
    have "currentOnTop ?st" by (rule currentOnTop_run)
    with c have "fnStack ?st \<noteq> []" "symbol (last (fnStack ?st)) = symbol R"
      by (simp_all add: currentOnTop_def)
    then have "fnStackContains (fnStack ?st) R"
      by (auto simp: fnStackContains_def list_ex_iff intro!: bexI[of _ "last (fnStack ?st)"])
    with assms(4) show False by simp
  qed
  with assms have "onAfterInstruction sd ?st (pc, bnk, t)
        = (pushFrame (noiIndex sd) t R ?st)\<lparr>currentFnRegion := Some R\<rparr>"
    by (intro onAfterInstruction_mid_entry)
  then show ?thesis by (simp add: pushFrame_eq markParent_fields)
qed

text \<open>
  The first observation of a run, inside the region \<^verbatim>\<open>a\<close> and on an empty stack, meets the
  hypotheses.
\<close>

theorem mid_region_entry_pushes_one_frame_witness:
  "336 \<le> (0x160 :: int)
   \<and> getCurrentFunctionRegion (regionsByBank lowData) (currentFnRegion (runTracker lowData [])) 0x160 0
      = Some lowRegion
   \<and> 0x160 \<noteq> addr lowRegion
   \<and> \<not> fnStackContains (fnStack (runTracker lowData [])) lowRegion
   \<and> onAfterInstruction lowData (runTracker lowData []) (0x160, 0, 7)
      = \<lparr>currentFnRegion = Some lowRegion,
         fnStack = [\<lparr>symbol = ''a'', addr = 0x100, clock = 7, childPushed = False,
                      openPrinted = False, indent = 0, prefix = ''-''\<rparr>],
         events = [Open 7 (Some 0)]\<rparr>"
proof -
  have h1: "336 \<le> (0x160 :: int)" by simp
  have h2: "getCurrentFunctionRegion (regionsByBank lowData) (currentFnRegion (runTracker lowData [])) 0x160 0
      = Some lowRegion"
    by code_simp
  have h3: "0x160 \<noteq> addr lowRegion" by (simp add: lowRegion_def)
  have h4: "\<not> fnStackContains (fnStack (runTracker lowData [])) lowRegion"
    by (simp add: runTracker_def initialState_def fnStackContains_def)
  have i: "noiIndex lowData (symbol lowRegion) = Some 0" by code_simp
  from mid_region_entry_pushes_one_frame[OF h1 h2 h3 h4, of 7] h1 h2 h3 h4 i
  show ?thesis
    by (simp add: runTracker_def initialState_def markParent_def newFrame_def lowRegion_def)
qed

text \<open>
  Claim C9 as stated, for every observation, fails below the threshold: on the empty
  stack the observation \<open>(0x120, 0, 0)\<close> resolves to the region \<^verbatim>\<open>a\<close>, inside it, and the
  handler pushes nothing.
\<close>

theorem mid_region_entry_below_threshold_counterexample:
  "getCurrentFunctionRegion (regionsByBank lowData) (currentFnRegion initialState) 0x120 0
      = Some lowRegion
   \<and> 0x120 \<noteq> addr lowRegion
   \<and> \<not> fnStackContains (fnStack initialState) lowRegion
   \<and> onAfterInstruction lowData initialState (0x120, 0, 0) = initialState
   \<and> fnStack initialState = []"
proof -
  have "getCurrentFunctionRegion (regionsByBank lowData) (currentFnRegion initialState) 0x120 0
      = Some lowRegion"
    by code_simp
  then show ?thesis
    by (simp add: initialState_def lowRegion_def fnStackContains_def onAfterInstruction_ignored)
qed

lemma exampleData_run1:
  "runTracker exampleData [(0x150, 0, 0)]
   = \<lparr>currentFnRegion = Some mainRegion,
      fnStack = [\<lparr>symbol = ''main'', addr = 0x150, clock = 0, childPushed = False,
                   openPrinted = False, indent = 0, prefix = ''-''\<rparr>],
      events = [Open 0 (Some 0)]\<rparr>"
  by code_simp

text \<open>
  Claim C8 against the code. After \<^verbatim>\<open>main\<close> was entered, the observation \<open>(0x4000, 1, 5)\<close>
  is above the threshold and resolves to no region. The handler leaves the stack and the
  events unchanged, as the claim says, but it also leaves the current region \<^verbatim>\<open>main\<close>: the
  test \<^verbatim>\<open>!newFn\<close> returns before the assignment \<^verbatim>\<open>currentFnRegion = null\<close> at the end of
  the handler is reached. An entry of \<^verbatim>\<open>main\<close> at its start that follows is therefore
  taken for the region the tracker is still in, and records nothing.
\<close>

theorem unresolved_keeps_current_region:
  "336 \<le> (0x4000 :: int)
   \<and> getCurrentFunctionRegion (regionsByBank exampleData)
        (currentFnRegion (runTracker exampleData [(0x150, 0, 0)])) 0x4000 1 = None
   \<and> onAfterInstruction exampleData (runTracker exampleData [(0x150, 0, 0)]) (0x4000, 1, 5)
      = runTracker exampleData [(0x150, 0, 0)]
   \<and> currentFnRegion (onAfterInstruction exampleData (runTracker exampleData [(0x150, 0, 0)]) (0x4000, 1, 5))
      = Some mainRegion
   \<and> events (runTracker exampleData [(0x150, 0, 0), (0x4000, 1, 5), (0x150, 0, 10)])
      = [Open 0 (Some 0)]"
proof -
  have n: "getCurrentFunctionRegion (regionsByBank exampleData)
        (currentFnRegion (runTracker exampleData [(0x150, 0, 0)])) 0x4000 1 = None"
    by code_simp
  have e: "events (runTracker exampleData [(0x150, 0, 0), (0x4000, 1, 5), (0x150, 0, 10)])
      = [Open 0 (Some 0)]"
    by code_simp
  from n e show ?thesis
    by (simp add: onAfterInstruction_unresolved exampleData_run1)
qed

section \<open>The finalized trace\<close>

lemma replay_append:
  "replay (es @ es') opened
   = (case replay es opened of None \<Rightarrow> None | Some opened' \<Rightarrow> replay es' opened')"
  by (induction es opened rule: replay.induct) (auto split: list.splits)

lemma replay_closes:
  "replay (map (closeEvent idx t) xs) (map (occurrence idx) xs @ rest) = Some rest"
  by (induction xs) (auto simp: closeEvent_def occurrence_def)

lemma replay_counts:
  "replay es opened = Some opened' \<Longrightarrow>
   length (filter isOpen es) + length opened = length (filter isClose es) + length opened'"
  by (induction es opened rule: replay.induct) (auto split: list.splits if_splits)

lemma occurrence_markParent:
  "map (occurrence idx) (rev (markParent stack)) = map (occurrence idx) (rev stack)"
proof -
  have "map (occurrence idx) (markParent stack) = map (occurrence idx) stack"
  proof (cases "stack = []")
    case True
    then show ?thesis by (simp add: markParent_def)
  next
    case False
    then have "stack = butlast stack @ [last stack]" by simp
    then have "map (occurrence idx) stack
               = map (occurrence idx) (butlast stack) @ [occurrence idx (last stack)]"
      by (metis list.simps(8,9) map_append)
    with False show ?thesis by (simp add: markParent_def occurrence_def)
  qed
  then show ?thesis by (simp add: rev_map[symmetric])
qed

lemma replay_pushFrame:
  assumes "replay (events st) [] = Some (map (occurrence idx) (rev (fnStack st)))"
  shows "replay (events (pushFrame idx t fn st)) []
         = Some (map (occurrence idx) (rev (fnStack (pushFrame idx t fn st))))"
  using assms
  by (simp add: pushFrame_eq replay_append occurrence_markParent)
     (simp add: occurrence_def newFrame_def)

lemma replay_popFrame:
  assumes "replay (events st) [] = Some (map (occurrence idx) (rev (fnStack st)))"
  shows "replay (events (popFrame idx t fn st)) []
         = Some (map (occurrence idx) (rev (fnStack (popFrame idx t fn st))))"
proof -
  let ?P = "\<lambda>f. Some (symbol f) \<noteq> map_option symbol fn"
  have "map (occurrence idx) (rev (fnStack st))
        = map (occurrence idx) (takeWhile ?P (rev (fnStack st)))
          @ map (occurrence idx) (dropWhile ?P (rev (fnStack st)))"
    by (simp add: map_append[symmetric] del: map_append)
  with assms show ?thesis
    by (simp add: popFrame_eq replay_append replay_closes)
qed

lemma replay_step:
  assumes "replay (events st) [] = Some (map (occurrence (noiIndex sd)) (rev (fnStack st)))"
  shows "replay (events (onAfterInstruction sd st (pc, bnk, t))) []
         = Some (map (occurrence (noiIndex sd)) (rev (fnStack (onAfterInstruction sd st (pc, bnk, t)))))"
proof (cases "pc < 336")
  case True
  with assms show ?thesis by (simp add: onAfterInstruction_ignored)
next
  case False
  show ?thesis
  proof (cases "getCurrentFunctionRegion (regionsByBank sd) (currentFnRegion st) pc bnk")
    case None
    with assms show ?thesis by (simp add: onAfterInstruction_unresolved)
  next
    case (Some r)
    show ?thesis
    proof (cases "currentFnRegion st = Some r")
      case True
      with Some assms show ?thesis by (simp add: onAfterInstruction_same)
    next
      case diff: False
      show ?thesis
      proof (cases "pc = addr r")
        case True
        with False Some diff replay_pushFrame[OF assms, of t r] show ?thesis
          by (simp add: onAfterInstruction_entry)
      next
        case mid: False
        show ?thesis
        proof (cases "fnStackContains (fnStack st) r")
          case True
          with mid False Some diff replay_popFrame[OF assms, of t "Some r"] show ?thesis
            by (simp add: onAfterInstruction_return)
        next
          case False
          with mid \<open>\<not> pc < 336\<close> Some diff replay_pushFrame[OF assms, of t r] show ?thesis
            by (simp add: onAfterInstruction_mid_entry)
        qed
      qed
    qed
  qed
qed

lemma replay_run:
  "replay (events (runTracker sd obs)) []
   = Some (map (occurrence (noiIndex sd)) (rev (fnStack (runTracker sd obs))))"
proof (induction obs rule: rev_induct)
  case Nil
  show ?case by (simp add: runTracker_def initialState_def)
next
  case (snoc ob obs)
  obtain pc bnk t where "ob = (pc, bnk, t)" by (cases ob) auto
  with replay_step[OF snoc, of pc bnk t] show ?case
    by (simp add: runTracker_def)
qed

lemma finishRun_stack: "fnStack (finishRun sd finalTime st) = []"
  by (simp add: finishRun_def popFrame_eq dropWhile_eq_Nil_conv)

lemma takeWhile_always: "takeWhile (\<lambda>f. True) xs = xs"
  by (induction xs) auto

lemma finishRun_events:
  "events (finishRun sd finalTime st)
   = events st @ map (closeEvent (noiIndex sd) finalTime) (rev (fnStack st))"
  by (simp add: finishRun_def popFrame_eq takeWhile_always)

text \<open>
  Claim C2. For every symbol table, observation stream and final time, the trace that is
  left after the run and the closing \<^verbatim>\<open>popFrame()\<close> consists of the events of the run
  followed by a \<^verbatim>\<open>Close\<close> at the final time for every frame still open, the top one first.
  Replayed from the empty stack, every \<^verbatim>\<open>Close\<close> of this trace names the occurrence opened
  last among those not yet closed, and no occurrence is left open; so the trace has as many
  \<^verbatim>\<open>Open\<close> as \<^verbatim>\<open>Close\<close> events.
\<close>

theorem finalized_trace_balanced:
  "events (finishRun sd finalTime (runTracker sd obs))
     = events (runTracker sd obs)
       @ map (closeEvent (noiIndex sd) finalTime) (rev (fnStack (runTracker sd obs)))
   \<and> replay (events (finishRun sd finalTime (runTracker sd obs))) [] = Some []
   \<and> length (filter isOpen (events (finishRun sd finalTime (runTracker sd obs))))
     = length (filter isClose (events (finishRun sd finalTime (runTracker sd obs))))
   \<and> fnStack (finishRun sd finalTime (runTracker sd obs)) = []"
proof -
  let ?st = "finishRun sd finalTime (runTracker sd obs)"
  have "replay (events ?st) [] = Some (map (occurrence (noiIndex sd)) (rev (fnStack ?st)))"
    unfolding finishRun_def by (rule replay_popFrame) (rule replay_run)
  then have r: "replay (events ?st) [] = Some []" by (simp add: finishRun_stack)
  from replay_counts[OF r] have "length (filter isOpen (events ?st)) = length (filter isClose (events ?st))"
    by simp
  with r show ?thesis by (simp add: finishRun_stack finishRun_events)
qed

section \<open>Scenarios\<close>

text \<open>
  Claim C1, as the code has it. The regions of the table are \<^verbatim>\<open>main\<close> from 0x150 to 0x1FF
  and \<^verbatim>\<open>helper\<close> from 0x200 to 0x3FFF. The third observation of the stream
  \<open>(0x150, 0, 0), (0x200, 0, 10), (0x150, 0, 20)\<close> is at the start of \<^verbatim>\<open>main\<close>, so it is an
  entry: the events are \<^verbatim>\<open>Open\<close> \<^verbatim>\<open>main\<close> at 0, \<^verbatim>\<open>Open\<close> \<^verbatim>\<open>helper\<close> at 10 and \<^verbatim>\<open>Open\<close> \<^verbatim>\<open>main\<close> at
  20, nothing is closed, and the frames of \<^verbatim>\<open>main\<close>, \<^verbatim>\<open>helper\<close> and \<^verbatim>\<open>main\<close> are left open.
  The report of the window from 0 to 20 is \<^verbatim>\<open>main\<close> with 20 and \<^verbatim>\<open>helper\<close> with 10. When
  the third observation is \<open>(0x151, 0, 20)\<close>, inside \<^verbatim>\<open>main\<close>, the events are \<^verbatim>\<open>Open\<close> \<^verbatim>\<open>main\<close>
  at 0, \<^verbatim>\<open>Open\<close> \<^verbatim>\<open>helper\<close> at 10 and \<^verbatim>\<open>Close\<close> \<^verbatim>\<open>helper\<close> at 20, \<^verbatim>\<open>main\<close> is left open, and
  the report is again \<^verbatim>\<open>main\<close> with 20 and \<^verbatim>\<open>helper\<close> with 10: the duration of a frame
  includes the time spent in the frames above it.
\<close>

theorem end_to_end_scenario:
  "generateFunctionRegions exampleTable = [mainRegion, helperRegion]
   \<and> sharedFrames exampleData = [''main'', ''helper'']
   \<and> events (runTracker exampleData [(0x150, 0, 0), (0x200, 0, 10), (0x150, 0, 20)])
     = [Open 0 (Some 0), Open 10 (Some 1), Open 20 (Some 0)]
   \<and> map symbol (fnStack (runTracker exampleData [(0x150, 0, 0), (0x200, 0, 10), (0x150, 0, 20)]))
     = [''main'', ''helper'', ''main'']
   \<and> logFrameReport (sharedFrames exampleData)
        (events (runTracker exampleData [(0x150, 0, 0), (0x200, 0, 10), (0x150, 0, 20)])) 0 20
     = Inr [(''main'', 20), (''helper'', 10)]
   \<and> events (runTracker exampleData [(0x150, 0, 0), (0x200, 0, 10), (0x151, 0, 20)])
     = [Open 0 (Some 0), Open 10 (Some 1), Close 20 (Some 1) 10]
   \<and> map symbol (fnStack (runTracker exampleData [(0x150, 0, 0), (0x200, 0, 10), (0x151, 0, 20)]))
     = [''main'']
   \<and> logFrameReport (sharedFrames exampleData)
        (events (runTracker exampleData [(0x150, 0, 0), (0x200, 0, 10), (0x151, 0, 20)])) 0 20
     = Inr [(''main'', 20), (''helper'', 10)]"
  by code_simp

text \<open>
  Claim C1 as stated fails on the stream it names: the third event is an \<^verbatim>\<open>Open\<close> of
  \<^verbatim>\<open>main\<close>, not a \<^verbatim>\<open>Close\<close> of \<^verbatim>\<open>helper\<close>, and the report gives \<^verbatim>\<open>main\<close> the duration 20, not
  10. The report gives \<^verbatim>\<open>main\<close> 20 also on the trace that the claim expects.
\<close>

theorem end_to_end_scenario_counterexample:
  "events (runTracker exampleData [(0x150, 0, 0), (0x200, 0, 10), (0x150, 0, 20)])
     \<noteq> [Open 0 (Some 0), Open 10 (Some 1), Close 20 (Some 1) 10]
   \<and> durationOf [(''main'', 20), (''helper'', 10)] ''main'' \<noteq> 10
   \<and> logFrameReport (sharedFrames exampleData)
        (events (runTracker exampleData [(0x150, 0, 0), (0x200, 0, 10), (0x150, 0, 20)])) 0 20
     = Inr [(''main'', 20), (''helper'', 10)]
   \<and> logFrameReport (sharedFrames exampleData)
        [Open 0 (Some 0), Open 10 (Some 1), Close 20 (Some 1) 10] 0 20
     = Inr [(''main'', 20), (''helper'', 10)]"
  by code_simp

section \<open>The frames of the recorded events\<close>











section \<open>Properties of eventsBetween and logFrameReport\<close>





















section \<open>Recursion\<close>

















end
